theory Spec2Isabelle
  imports Complex_Main "HOL-Library.Log_Nat"
begin

unbundle bit_operations_syntax

section \<open>The world the driver talks to\<close>

text \<open>
  \<^verbatim>\<open>app/display_driver.py\<close> drives the panel through RPi.GPIO and spidev. Every call
  into those libraries, every \<^verbatim>\<open>time.sleep\<close> and every \<^verbatim>\<open>print\<close> is recorded, in
  order, as an event of a trace. Sleeps are in milliseconds. The busy line is an input
  of the environment: \<open>busy k\<close> is what the \<open>k\<close>-th read of the busy pin returns
  (\<open>True\<close> for level 1, the panel is busy).
\<close>

datatype level = LOW | HIGH

datatype direction = GPIO_IN | GPIO_OUT

datatype event =
    Setmode_BCM
  | Setwarnings bool
  | Setup int direction
  | Output int level
  | Input int level
  | SpiOpen nat nat
  | SpiMaxSpeed nat
  | SpiMode nat
  | SpiWrite "int list"
  | Sleep nat
  | Print string

datatype error = AttributeError | IndexError | ValueError

text \<open>What a Python call returns to its caller, where a claim is about it.\<close>

datatype retval = NoneV | BoolV bool

text \<open>
  An \<^verbatim>\<open>EPD2in7\<close> object with the world it acts on. \<open>spi\<close> is \<open>False\<close> while
  \<^verbatim>\<open>self.spi\<close> is \<^verbatim>\<open>None\<close> (as \<^verbatim>\<open>__init__\<close> leaves it) and \<open>True\<close> once \<^verbatim>\<open>init\<close>
  has opened the device. \<open>polls\<close> counts the reads of the busy pin made so far.
  \<open>has_hardware\<close> is the module's \<^verbatim>\<open>HAS_HARDWARE\<close>: without hardware the constructor
  prints that it runs in simulation mode.
\<close>

record epd =
  dc_pin :: int
  rst_pin :: int
  busy_pin :: int
  cs_pin :: int
  spi :: bool
  epd_width :: nat
  epd_height :: nat
  polls :: nat
  trace :: "event list"

definition EPD2in7 :: "bool \<Rightarrow> int \<Rightarrow> int \<Rightarrow> int \<Rightarrow> int \<Rightarrow> epd" where
  "EPD2in7 has_hardware dc rst busy cs =
     \<lparr>dc_pin = dc, rst_pin = rst, busy_pin = busy, cs_pin = cs, spi = False,
      epd_width = 176, epd_height = 264, polls = 0,
      trace = (if has_hardware then []
               else [Print ''Running in simulation mode (no hardware)''])\<rparr>"

definition emit :: "event \<Rightarrow> epd \<Rightarrow> epd" where
  "emit e s = s\<lparr>trace := trace s @ [e]\<rparr>"

definition gpio_output :: "int \<Rightarrow> level \<Rightarrow> epd \<Rightarrow> epd" where
  "gpio_output pin v s = emit (Output pin v) s"

definition gpio_input :: "(nat \<Rightarrow> bool) \<Rightarrow> int \<Rightarrow> epd \<Rightarrow> level \<times> epd" where
  "gpio_input busy pin s =
     (let v = (if busy (polls s) then HIGH else LOW)
      in (v, emit (Input pin v) (s\<lparr>polls := polls s + 1\<rparr>)))"

definition time_sleep :: "nat \<Rightarrow> epd \<Rightarrow> epd" where
  "time_sleep ms s = emit (Sleep ms) s"

definition print :: "string \<Rightarrow> epd \<Rightarrow> epd" where
  "print msg s = emit (Print msg) s"

text \<open>\<^verbatim>\<open>self.spi.writebytes(...)\<close>: an AttributeError while \<^verbatim>\<open>self.spi\<close> is \<^verbatim>\<open>None\<close>.\<close>

definition spi_writebytes :: "int list \<Rightarrow> epd \<Rightarrow> error + epd" where
  "spi_writebytes bs s = (if spi s then Inr (emit (SpiWrite bs) s) else Inl AttributeError)"

text \<open>Sequencing: an exception ends the run at the statement that raised it.\<close>

fun run_steps :: "('s \<Rightarrow> error + 's) list \<Rightarrow> 's \<Rightarrow> error + 's" where
  "run_steps [] s = Inr s"
| "run_steps (f # fs) s = (case f s of Inl e \<Rightarrow> Inl e | Inr s1 \<Rightarrow> run_steps fs s1)"

section \<open>The driver: EPD2in7\<close>

text \<open>Every method returns at once when \<^verbatim>\<open>HAS_HARDWARE\<close> is false.\<close>

definition reset :: "bool \<Rightarrow> epd \<Rightarrow> epd" where
  "reset has_hardware s =
     (if \<not> has_hardware then s
      else time_sleep 200 (gpio_output (rst_pin s) HIGH
             (time_sleep 2 (gpio_output (rst_pin s) LOW
               (time_sleep 200 (gpio_output (rst_pin s) HIGH s))))))"

definition send_command :: "bool \<Rightarrow> int \<Rightarrow> epd \<Rightarrow> error + epd" where
  "send_command has_hardware command s =
     (if \<not> has_hardware then Inr s
      else spi_writebytes [command] (gpio_output (dc_pin s) LOW s))"

definition send_data :: "bool \<Rightarrow> int \<Rightarrow> epd \<Rightarrow> error + epd" where
  "send_data has_hardware data s =
     (if \<not> has_hardware then Inr s
      else spi_writebytes [data] (gpio_output (dc_pin s) HIGH s))"

text \<open>
  The loop of \<^verbatim>\<open>wait_until_idle\<close>:
  \<^verbatim>\<open>while GPIO.input(self.busy_pin) == 1 and timeout < 100: time.sleep(0.1); timeout += 1\<close>.
  The pin is read before the counter is compared, on every test of the condition.
\<close>

function busy_loop :: "(nat \<Rightarrow> bool) \<Rightarrow> nat \<Rightarrow> epd \<Rightarrow> nat \<times> epd" where
  "busy_loop busy timeout s =
     (case gpio_input busy (busy_pin s) s of
        (v, s1) \<Rightarrow>
          if v = HIGH \<and> timeout < 100
          then busy_loop busy (timeout + 1) (time_sleep 100 s1)
          else (timeout, s1))"
  by pat_completeness auto
termination
  by (relation "measure (\<lambda>(busy, timeout, s). 100 - timeout)") auto

declare busy_loop.simps [simp del]

text \<open>The function has no \<^verbatim>\<open>return\<close> with a value: every call returns \<^verbatim>\<open>None\<close>.\<close>

definition wait_until_idle :: "bool \<Rightarrow> (nat \<Rightarrow> bool) \<Rightarrow> epd \<Rightarrow> retval \<times> epd" where
  "wait_until_idle has_hardware busy s =
     (if \<not> has_hardware then (NoneV, s)
      else case busy_loop busy 0 s of
        (timeout, s1) \<Rightarrow>
          (NoneV,
           time_sleep 200
             (if timeout \<ge> 100 then print ''WARNING: Display BUSY timeout'' s1 else s1)))"

definition wait_step :: "bool \<Rightarrow> (nat \<Rightarrow> bool) \<Rightarrow> epd \<Rightarrow> error + epd" where
  "wait_step has_hardware busy s = Inr (snd (wait_until_idle has_hardware busy s))"

definition open_bus :: "epd \<Rightarrow> epd" where
  "open_bus s =
     (emit (SpiMode 0) (emit (SpiMaxSpeed 4000000) (emit (SpiOpen 0 0)
       (emit (Setup (busy_pin s) GPIO_IN) (emit (Setup (dc_pin s) GPIO_OUT)
         (emit (Setup (rst_pin s) GPIO_OUT) (emit (Setwarnings False)
           (emit Setmode_BCM s))))))))\<lparr>spi := True\<rparr>"

definition init :: "bool \<Rightarrow> (nat \<Rightarrow> bool) \<Rightarrow> string \<Rightarrow> epd \<Rightarrow> error + epd" where
  "init has_hardware busy mode s =
     (if \<not> has_hardware then Inr s
      else run_steps
        [\<lambda>s. Inr (open_bus s),
         \<lambda>s. Inr (reset has_hardware s),
         wait_step has_hardware busy,
         send_command has_hardware 0x12,
         wait_step has_hardware busy,
         send_command has_hardware 0x45,
         send_data has_hardware 0x00,
         send_data has_hardware 0x00,
         send_data has_hardware 0x07,
         send_data has_hardware 0x01,
         send_command has_hardware 0x4F,
         send_data has_hardware 0x00,
         send_data has_hardware 0x00,
         send_command has_hardware 0x11,
         send_data has_hardware 0x03] s)"

definition display_frame :: "bool \<Rightarrow> int list \<Rightarrow> epd \<Rightarrow> error + epd" where
  "display_frame has_hardware frame_buffer s =
     (if \<not> has_hardware then Inr s
      else run_steps (send_command has_hardware 0x24 # map (send_data has_hardware) frame_buffer) s)"

definition refresh :: "bool \<Rightarrow> (nat \<Rightarrow> bool) \<Rightarrow> string \<Rightarrow> epd \<Rightarrow> error + epd" where
  "refresh has_hardware busy mode s =
     (if \<not> has_hardware then Inr s
      else run_steps
        [send_command has_hardware 0x22,
         (if mode = ''partial'' then send_data has_hardware 0xFF
          else if mode = ''fast'' then send_data has_hardware 0xC7
          else send_data has_hardware 0xF7),
         send_command has_hardware 0x20,
         wait_step has_hardware busy] s)"

definition clear :: "bool \<Rightarrow> (nat \<Rightarrow> bool) \<Rightarrow> epd \<Rightarrow> error + epd" where
  "clear has_hardware busy s =
     (if \<not> has_hardware then Inr s
      else run_steps
        [display_frame has_hardware (replicate (epd_width s * epd_height s div 8) 0xFF),
         refresh has_hardware busy ''full''] s)"

section \<open>What the panel sees on the bus\<close>

text \<open>
  A byte written over SPI is a command while the data/command line is low and data
  while it is high. \<open>wire dc l es\<close> reads a trace as the sequence of commands and
  data bytes the panel receives, \<open>dc\<close> being the pin of the data/command line and
  \<open>l\<close> its level before the trace begins.
\<close>

datatype xfer = Command int | Data int

fun wire :: "int \<Rightarrow> level \<Rightarrow> event list \<Rightarrow> xfer list" where
  "wire dc l [] = []"
| "wire dc l (Output p v # es) = wire dc (if p = dc then v else l) es"
| "wire dc l (SpiWrite bs # es) = map (if l = LOW then Command else Data) bs @ wire dc l es"
| "wire dc l (e # es) = wire dc l es"

fun opcodes :: "xfer list \<Rightarrow> int list" where
  "opcodes [] = []"
| "opcodes (Command c # xs) = c # opcodes xs"
| "opcodes (Data d # xs) = opcodes xs"

text \<open>
  How one call of \<^verbatim>\<open>wait_until_idle\<close> reads on the trace. \<open>busy_count busy p budget\<close>
  is the number of consecutive busy readings from read \<open>p\<close> on, capped at \<open>budget\<close>;
  \<open>polling pin busy p k\<close> is \<open>k\<close> busy readings, each followed by the 100 ms sleep,
  and the reading that ends the loop.
\<close>

definition busy_count :: "(nat \<Rightarrow> bool) \<Rightarrow> nat \<Rightarrow> nat \<Rightarrow> nat" where
  "busy_count busy p budget = length (takeWhile (\<lambda>i. busy (p + i)) [0..<budget])"

definition polling :: "int \<Rightarrow> (nat \<Rightarrow> bool) \<Rightarrow> nat \<Rightarrow> nat \<Rightarrow> event list" where
  "polling pin busy p k =
     concat (replicate k [Input pin HIGH, Sleep 100])
     @ [Input pin (if busy (p + k) then HIGH else LOW)]"

definition idle_line :: "nat \<Rightarrow> bool" where
  "idle_line k = False"

definition stuck_line :: "nat \<Rightarrow> bool" where
  "stuck_line k = True"

section \<open>Images\<close>

text \<open>
  \<^verbatim>\<open>app/renderer.py\<close> draws with PIL. An image is what the renderer uses of one: its
  \<^verbatim>\<open>size\<close> (width, height) and the value of each pixel, 0 for black and 255 for white
  in mode \<^verbatim>\<open>'1'\<close>. \<^verbatim>\<open>getpixel\<close> raises IndexError outside the image.
\<close>

record image =
  img_size :: "nat \<times> nat"
  pixels :: "nat \<times> nat \<Rightarrow> int"

definition image_new :: "nat \<times> nat \<Rightarrow> int \<Rightarrow> image" where
  "image_new sz color = \<lparr>img_size = sz, pixels = (\<lambda>p. color)\<rparr>"

definition getpixel :: "image \<Rightarrow> nat \<times> nat \<Rightarrow> error + int" where
  "getpixel img p =
     (if fst p < fst (img_size img) \<and> snd p < snd (img_size img)
      then Inr (pixels img p) else Inl IndexError)"

text \<open>\<^verbatim>\<open>draw.rectangle([x0, y0, x1, y1], fill=c)\<close>: both corners belong to the rectangle.\<close>

definition rectangle :: "nat \<times> nat \<times> nat \<times> nat \<Rightarrow> int \<Rightarrow> image \<Rightarrow> image" where
  "rectangle box c img =
     (case box of (x0, y0, x1, y1) \<Rightarrow>
        img\<lparr>pixels := (\<lambda>p. if x0 \<le> fst p \<and> fst p \<le> x1 \<and> y0 \<le> snd p \<and> snd p \<le> y1
                               then c else pixels img p)\<rparr>)"

text \<open>\<^verbatim>\<open>bytes(buffer)\<close>: a ValueError unless every element is in \<^verbatim>\<open>range(256)\<close>.\<close>

definition bytes :: "int list \<Rightarrow> error + int list" where
  "bytes buffer =
     (if list_all (\<lambda>b. 0 \<le> b \<and> b < 256) buffer then Inr buffer else Inl ValueError)"

section \<open>Python numbers\<close>

text \<open>
  \<^verbatim>\<open>time.time()\<close> returns a \<^verbatim>\<open>float\<close>: an IEEE 754 binary64 number. A finite float is
  the real number it denotes; the arithmetic of floats computes the exact result and
  rounds it to the nearest float, a tie going to the float whose last bit is even, and
  a result beyond the largest float becoming an infinity. \<open>to_double x\<close> is that
  rounding of the exact result \<open>x\<close>. \<open>exponent x\<close> is the binary exponent of a nonzero
  \<open>x\<close>, the \<open>e\<close> with \<open>2 ^ e \<le> \<bar>x\<bar> < 2 ^ (e + 1)\<close>, and not less than -1022, the
  exponent of the subnormal numbers; floats of that exponent are 2 to the \<open>e - 52\<close>
  apart.
\<close>

datatype pyfloat = Finite real | PosInf | NegInf | NaN

definition pow2 :: "int \<Rightarrow> real" where
  "pow2 e = (if 0 \<le> e then 2 ^ nat e else 1 / 2 ^ nat (- e))"

definition exponent :: "real \<Rightarrow> int" where
  "exponent x =
     max (- 1022)
       (if 1 \<le> \<bar>x\<bar> then bitlen \<lfloor>\<bar>x\<bar>\<rfloor> - 1 else - bitlen (\<lceil>1 / \<bar>x\<bar>\<rceil> - 1))"

definition round_half_even :: "real \<Rightarrow> int" where
  "round_half_even x =
     (if x - of_int \<lfloor>x\<rfloor> < 1 / 2 then \<lfloor>x\<rfloor>
      else if 1 / 2 < x - of_int \<lfloor>x\<rfloor> then \<lfloor>x\<rfloor> + 1
      else if even \<lfloor>x\<rfloor> then \<lfloor>x\<rfloor> else \<lfloor>x\<rfloor> + 1)"

definition to_double :: "real \<Rightarrow> pyfloat" where
  "to_double x =
     (if x = 0 then Finite 0
      else
        (let ulp = pow2 (exponent x - 52);
             r = of_int (round_half_even (x / ulp)) * ulp
         in if pow2 1024 \<le> \<bar>r\<bar> then (if 0 < x then PosInf else NegInf) else Finite r))"

text \<open>\<^verbatim>\<open>x - y\<close> for two finite floats.\<close>

definition float_sub :: "real \<Rightarrow> real \<Rightarrow> pyfloat" where
  "float_sub x y = to_double (x - y)"

text \<open>
  A number read from the configuration file is an \<^verbatim>\<open>int\<close> or a \<^verbatim>\<open>float\<close>. \<^verbatim>\<open>n * 60\<close> is
  exact on an \<^verbatim>\<open>int\<close> and rounds on a \<^verbatim>\<open>float\<close>; \<^verbatim>\<open>a > b\<close> between a float and a number
  compares the exact values, and is false when either side is not a number.
\<close>

datatype number = PyInt int | PyFloat pyfloat

fun times_60 :: "number \<Rightarrow> number" where
  "times_60 (PyInt m) = PyInt (m * 60)"
| "times_60 (PyFloat (Finite x)) = PyFloat (to_double (x * 60))"
| "times_60 (PyFloat f) = PyFloat f"

fun float_gt :: "pyfloat \<Rightarrow> number \<Rightarrow> bool" where
  "float_gt (Finite x) (PyInt m) = (of_int m < x)"
| "float_gt (Finite x) (PyFloat (Finite y)) = (y < x)"
| "float_gt (Finite x) (PyFloat NegInf) = True"
| "float_gt PosInf (PyInt m) = True"
| "float_gt PosInf (PyFloat (Finite y)) = True"
| "float_gt PosInf (PyFloat NegInf) = True"
| "float_gt a b = False"

section \<open>The renderer: DisplayRenderer\<close>

text \<open>
  The five zone painters rasterise text through PIL's fonts, which are not part of the
  repository: they enter as parameters, each a function from the image drawn so far to
  the image after the call. \<open>'d\<close> is the type of the token data.
\<close>

record 'd painter =
  draw_header :: "'d \<Rightarrow> image \<Rightarrow> image"
  draw_price :: "'d \<Rightarrow> image \<Rightarrow> image"
  draw_change :: "'d \<Rightarrow> image \<Rightarrow> image"
  draw_stats :: "'d \<Rightarrow> image \<Rightarrow> image"
  draw_footer :: "int \<Rightarrow> image \<Rightarrow> image"

text \<open>
  A \<^verbatim>\<open>DisplayRenderer\<close> object. \<open>clock_reads\<close> counts the calls of \<^verbatim>\<open>time.time()\<close> made
  so far; the clock is an input of the environment, \<open>clock k\<close> being the finite float
  the \<open>k\<close>-th call returns. \<open>last_full_refresh\<close> is 0 or a reading of the clock.
\<close>

record renderer =
  epd :: epd
  width :: nat
  height :: nat
  mode :: string
  full_refresh_minutes :: number
  full_refresh_after_partials :: int
  last_full_refresh :: real
  partial_count :: int
  last_image :: "image option"
  initialized :: bool
  clock_reads :: nat

definition ZONE_HEADER :: "nat \<times> nat \<times> nat \<times> nat" where
  "ZONE_HEADER = (0, 0, 264, 28)"

definition ZONE_PRICE :: "nat \<times> nat \<times> nat \<times> nat" where
  "ZONE_PRICE = (10, 32, 140, 65)"

definition ZONE_CHANGE :: "nat \<times> nat \<times> nat \<times> nat" where
  "ZONE_CHANGE = (155, 32, 100, 65)"

definition ZONE_STATS :: "nat \<times> nat \<times> nat \<times> nat" where
  "ZONE_STATS = (10, 102, 244, 50)"

definition ZONE_FOOTER :: "nat \<times> nat \<times> nat \<times> nat" where
  "ZONE_FOOTER = (0, 156, 264, 20)"

definition DisplayRenderer ::
  "epd \<Rightarrow> nat \<Rightarrow> nat \<Rightarrow> string \<Rightarrow> number \<Rightarrow> int \<Rightarrow> renderer" where
  "DisplayRenderer e w h m minutes partials =
     \<lparr>epd = e, width = w, height = h, mode = m,
      full_refresh_minutes = minutes, full_refresh_after_partials = partials,
      last_full_refresh = 0, partial_count = 0, last_image = None,
      initialized = False, clock_reads = 0\<rparr>"

definition time_time :: "(nat \<Rightarrow> real) \<Rightarrow> renderer \<Rightarrow> real \<times> renderer" where
  "time_time clock self = (clock (clock_reads self), self\<lparr>clock_reads := clock_reads self + 1\<rparr>)"

definition on_epd :: "(epd \<Rightarrow> error + epd) \<Rightarrow> renderer \<Rightarrow> error + renderer" where
  "on_epd f self = (case f (epd self) of Inl e \<Rightarrow> Inl e | Inr d \<Rightarrow> Inr (self\<lparr>epd := d\<rparr>))"

definition renderer_init ::
  "bool \<Rightarrow> (nat \<Rightarrow> bool) \<Rightarrow> (nat \<Rightarrow> real) \<Rightarrow> renderer \<Rightarrow> error + renderer" where
  "renderer_init has_hardware busy clock self =
     (if \<not> initialized self then
        run_steps
          [on_epd (init has_hardware busy ''full''),
           on_epd (clear has_hardware busy),
           \<lambda>self. case time_time clock self of
                     (now, self1) \<Rightarrow> Inr (self1\<lparr>last_full_refresh := now\<rparr>),
           \<lambda>self. Inr (self\<lparr>initialized := True\<rparr>)] self
      else Inr self)"

definition show_blank ::
  "bool \<Rightarrow> (nat \<Rightarrow> bool) \<Rightarrow> (nat \<Rightarrow> real) \<Rightarrow> renderer \<Rightarrow> error + renderer" where
  "show_blank has_hardware busy clock self =
     run_steps
       [\<lambda>self. if \<not> initialized self then renderer_init has_hardware busy clock self
               else Inr self,
        on_epd (init has_hardware busy ''full''),
        on_epd (clear has_hardware busy),
        \<lambda>self. Inr (self\<lparr>last_image := Some (image_new (width self, height self) 255)\<rparr>)] self"

definition should_full_refresh :: "(nat \<Rightarrow> real) \<Rightarrow> renderer \<Rightarrow> bool \<times> renderer" where
  "should_full_refresh clock self =
     (case time_time clock self of
        (now, self1) \<Rightarrow>
          (let time_since_full = float_sub now (last_full_refresh self1)
           in if float_gt time_since_full (times_60 (full_refresh_minutes self1))
              then (True, self1)
              else if partial_count self1 \<ge> full_refresh_after_partials self1 then (True, self1)
              else (False, self1)))"

text \<open>
  \<^verbatim>\<open>_image_to_buffer\<close>. The innermost loop runs over \<^verbatim>\<open>range(8)\<close> and builds one byte;
  the middle loop runs over \<^verbatim>\<open>range(0, img_width, 8)\<close>; the outer loop over the rows.
  \<^verbatim>\<open>0x80 >> bit\<close> is \<open>drop_bit bit 0x80\<close>. The method reads \<^verbatim>\<open>image.size\<close> and never
  \<^verbatim>\<open>self.width\<close> or \<^verbatim>\<open>self.height\<close>.
\<close>

fun pack_bits :: "image \<Rightarrow> nat \<Rightarrow> nat \<Rightarrow> nat list \<Rightarrow> int \<Rightarrow> error + int" where
  "pack_bits img x y [] byte = Inr byte"
| "pack_bits img x y (bitpos # bits) byte =
     (if x + bitpos < fst (img_size img) then
        (case getpixel img (x + bitpos, y) of
           Inl e \<Rightarrow> Inl e
         | Inr pixel \<Rightarrow>
             pack_bits img x y bits
               (if pixel = 255 then byte OR drop_bit bitpos 0x80 else byte))
      else pack_bits img x y bits byte)"

fun pack_row :: "image \<Rightarrow> nat \<Rightarrow> nat list \<Rightarrow> int list \<Rightarrow> error + int list" where
  "pack_row img y [] buffer = Inr buffer"
| "pack_row img y (x # xs) buffer =
     (case pack_bits img x y [0..<8] 0 of
        Inl e \<Rightarrow> Inl e
      | Inr byte \<Rightarrow> pack_row img y xs (buffer @ [byte]))"

definition range_step8 :: "nat \<Rightarrow> nat list" where
  "range_step8 img_width = map (\<lambda>i. 8 * i) [0..<(img_width + 7) div 8]"

fun pack_rows :: "image \<Rightarrow> nat list \<Rightarrow> int list \<Rightarrow> error + int list" where
  "pack_rows img [] buffer = Inr buffer"
| "pack_rows img (y # ys) buffer =
     (case pack_row img y (range_step8 (fst (img_size img))) buffer of
        Inl e \<Rightarrow> Inl e
      | Inr buffer1 \<Rightarrow> pack_rows img ys buffer1)"

definition image_to_buffer :: "renderer \<Rightarrow> image \<Rightarrow> error + int list" where
  "image_to_buffer self img =
     (case pack_rows img [0..<snd (img_size img)] [] of
        Inl e \<Rightarrow> Inl e
      | Inr buffer \<Rightarrow> bytes buffer)"

text \<open>
  Modelled from the spec: \<^verbatim>\<open>unpack\<close>, which no file of the repository defines. The
  specification describes it as the exact inverse of \<^verbatim>\<open>pack\<close> on the packed buffer:
  \<^verbatim>\<open>ceil(WIDTH/8)\<close> bytes for each row, most significant bit first within each byte,
  one bit for each pixel, 1 for a WHITE pixel and 0 for a BLACK one.
\<close>

definition unpack :: "nat \<Rightarrow> nat \<Rightarrow> int list \<Rightarrow> image" where
  "unpack w h buffer =
     \<lparr>img_size = (w, h),
      pixels = (\<lambda>p. if bit (buffer ! (snd p * ((w + 7) div 8) + fst p div 8)) (7 - fst p mod 8)
                    then 255 else 0)\<rparr>"

definition rprint :: "string \<Rightarrow> renderer \<Rightarrow> renderer" where
  "rprint msg self = self\<lparr>epd := print msg (epd self)\<rparr>"

definition clear_zone :: "nat \<times> nat \<times> nat \<times> nat \<Rightarrow> image \<Rightarrow> image" where
  "clear_zone zone img =
     (case zone of (x, y, w, h) \<Rightarrow> rectangle (x, y, x + w, y + h) 255 img)"

definition transmit ::
  "bool \<Rightarrow> (nat \<Rightarrow> bool) \<Rightarrow> string \<Rightarrow> image \<Rightarrow> renderer \<Rightarrow> error + renderer" where
  "transmit has_hardware busy m img self =
     (case image_to_buffer self img of
        Inl e \<Rightarrow> Inl e
      | Inr buffer \<Rightarrow>
          run_steps
            [on_epd (init has_hardware busy m),
             on_epd (display_frame has_hardware buffer),
             on_epd (refresh has_hardware busy m),
             \<lambda>self. Inr (self\<lparr>last_image := Some img\<rparr>)] self)"

definition full_frame :: "'d painter \<Rightarrow> 'd \<Rightarrow> int \<Rightarrow> renderer \<Rightarrow> image" where
  "full_frame p data stale_seconds self =
     draw_footer p stale_seconds
       (draw_stats p data
         (draw_change p data
           (draw_price p data
             (draw_header p data
               (image_new (width self, height self) 255)))))"

definition render_full ::
  "bool \<Rightarrow> (nat \<Rightarrow> bool) \<Rightarrow> 'd painter \<Rightarrow> 'd \<Rightarrow> int \<Rightarrow> renderer \<Rightarrow> error + renderer" where
  "render_full has_hardware busy p data stale_seconds self =
     transmit has_hardware busy ''full'' (full_frame p data stale_seconds self)
       (rprint ''Full refresh'' self)"

definition partial_frame :: "'d painter \<Rightarrow> 'd \<Rightarrow> int \<Rightarrow> image \<Rightarrow> image" where
  "partial_frame p data stale_seconds prev =
     draw_footer p stale_seconds
       (draw_stats p data
         (draw_change p data
           (draw_price p data
             (clear_zone ZONE_FOOTER
               (clear_zone ZONE_STATS
                 (clear_zone ZONE_CHANGE
                   (clear_zone ZONE_PRICE prev)))))))"

definition render_partial ::
  "bool \<Rightarrow> (nat \<Rightarrow> bool) \<Rightarrow> 'd painter \<Rightarrow> 'd \<Rightarrow> int \<Rightarrow> renderer \<Rightarrow> error + renderer" where
  "render_partial has_hardware busy p data stale_seconds self =
     (let self1 = rprint ''Partial refresh'' self
      in case last_image self1 of
           None \<Rightarrow> render_full has_hardware busy p data stale_seconds self1
         | Some prev \<Rightarrow>
             transmit has_hardware busy ''partial''
               (partial_frame p data stale_seconds prev) self1)"

text \<open>\<^verbatim>\<open>str.lower\<close> on the ASCII letters, which is all \<^verbatim>\<open>"blank"\<close> can be matched by here.\<close>

definition lower_char :: "char \<Rightarrow> char" where
  "lower_char c =
     (if 65 \<le> (of_char c :: nat) \<and> (of_char c :: nat) \<le> 90
      then char_of (of_char c + 32 :: nat) else c)"

definition lower :: "string \<Rightarrow> string" where
  "lower s = map lower_char s"

definition render ::
  "bool \<Rightarrow> (nat \<Rightarrow> bool) \<Rightarrow> (nat \<Rightarrow> real) \<Rightarrow> 'd painter \<Rightarrow> 'd \<Rightarrow> int \<Rightarrow> renderer
     \<Rightarrow> error + renderer" where
  "render has_hardware busy clock p data stale_seconds self =
     (case (if \<not> initialized self then renderer_init has_hardware busy clock self
            else Inr self) of
        Inl e \<Rightarrow> Inl e
      | Inr self1 \<Rightarrow>
          if lower (mode self1) = ''blank'' then show_blank has_hardware busy clock self1
          else
            (case should_full_refresh clock self1 of
               (True, self2) \<Rightarrow>
                 (case render_full has_hardware busy p data stale_seconds self2 of
                    Inl e \<Rightarrow> Inl e
                  | Inr self3 \<Rightarrow>
                      (case time_time clock self3 of
                         (now, self4) \<Rightarrow>
                           Inr (self4\<lparr>last_full_refresh := now, partial_count := 0\<rparr>)))
             | (False, self2) \<Rightarrow>
                 (case render_partial has_hardware busy p data stale_seconds self2 of
                    Inl e \<Rightarrow> Inl e
                  | Inr self3 \<Rightarrow>
                      Inr (self3\<lparr>partial_count := partial_count self3 + 1\<rparr>))))"

section \<open>Auxiliary notions for the proofs\<close>


text \<open>
  A renderer on the pins of the default configuration, for the panel laid out 264 by
  176, with a full refresh every minute or after 1000 partial refreshes.
\<close>

definition one_minute_renderer :: renderer where
  "one_minute_renderer =
     DisplayRenderer (EPD2in7 True 25 17 24 8) 264 176 ''normal'' (PyInt 1) 1000"

text \<open>The fields of the driver object that no method assigns after construction.\<close>

definition same_device :: "epd \<Rightarrow> epd \<Rightarrow> bool" where
  "same_device s s' =
     (dc_pin s' = dc_pin s \<and> rst_pin s' = rst_pin s \<and> busy_pin s' = busy_pin s \<and>
      cs_pin s' = cs_pin s \<and> epd_width s' = epd_width s \<and> epd_height s' = epd_height s)"

text \<open>
  \<open>emits f ws\<close>: on an opened bus the driver operation \<open>f\<close> returns normally, leaves the
  bus open and the pins as they were, and the panel receives exactly \<open>ws\<close>.
\<close>

definition emits :: "(epd \<Rightarrow> error + epd) \<Rightarrow> xfer list \<Rightarrow> bool" where
  "emits f ws =
     (\<forall>s. spi s \<longrightarrow>
        (\<exists>s'. f s = Inr s' \<and> spi s' \<and> same_device s s' \<and>
              (\<forall>l. wire (dc_pin s) l (trace s') = wire (dc_pin s) l (trace s) @ ws)))"

text \<open>The bytes \<^verbatim>\<open>_image_to_buffer\<close> builds, without the error plumbing.\<close>

fun bits_of :: "image \<Rightarrow> nat \<Rightarrow> nat \<Rightarrow> nat list \<Rightarrow> int \<Rightarrow> int" where
  "bits_of img x y [] byte = byte"
| "bits_of img x y (bitpos # bits) byte =
     bits_of img x y bits
       (if x + bitpos < fst (img_size img) \<and> pixels img (x + bitpos, y) = 255
        then byte OR drop_bit bitpos 0x80 else byte)"

definition packed_byte :: "image \<Rightarrow> nat \<Rightarrow> nat \<Rightarrow> int" where
  "packed_byte img x y = bits_of img x y [0..<8] 0"

definition packed_row :: "image \<Rightarrow> nat \<Rightarrow> int list" where
  "packed_row img y = map (\<lambda>x. packed_byte img x y) (range_step8 (fst (img_size img)))"

definition packed :: "image \<Rightarrow> int list" where
  "packed img = concat (map (packed_row img) [0..<snd (img_size img)])"

text \<open>
  Frames for the examples: a white frame 8 pixels wide and 1 high, and the same frame
  with the pixel at (0, 0) black.
\<close>

definition white_8x1 :: image where
  "white_8x1 = image_new (8, 1) 255"

definition black_dot_8x1 :: image where
  "black_dot_8x1 = white_8x1\<lparr>pixels := (\<lambda>p. if p = (0, 0) then 0 else 255)\<rparr>"

text \<open>An event that puts no byte on the bus.\<close>

definition quiet :: "event \<Rightarrow> bool" where
  "quiet e = (case e of SpiWrite bs \<Rightarrow> False | _ \<Rightarrow> True)"

text \<open>
  Everything one call of \<^verbatim>\<open>wait_until_idle\<close> adds to the trace, when it starts at read
  \<open>p\<close> of the busy pin: the polling, the warning when the counter reached 100, and the
  closing 200 ms sleep.
\<close>

definition waiting :: "int \<Rightarrow> (nat \<Rightarrow> bool) \<Rightarrow> nat \<Rightarrow> event list" where
  "waiting pin busy p =
     polling pin busy p (busy_count busy p 100)
     @ (if busy_count busy p 100 = 100 then [Print ''WARNING: Display BUSY timeout''] else [])
     @ [Sleep 200]"

section \<open>Facts about the driver\<close>

subsection \<open>The bus as the panel sees it\<close>

lemma wire_snoc_quiet:
  "(\<And>bs. e \<noteq> SpiWrite bs) \<Longrightarrow> wire dc l (es @ [e]) = wire dc l es"
proof (induction es arbitrary: l)
  case Nil
  then show ?case by (cases e) auto
next
  case (Cons a es)
  then show ?case by (cases a) simp_all
qed

lemma wire_snoc_write:
  "wire dc l (es @ [Output dc v, SpiWrite bs]) =
     wire dc l es @ map (if v = LOW then Command else Data) bs"
proof (induction es arbitrary: l)
  case Nil
  show ?case by simp
next
  case (Cons a es)
  then show ?case by (cases a) simp_all
qed

lemma wire_append_quiet:
  "list_all quiet qs \<Longrightarrow> wire dc l (es @ qs) = wire dc l es"
proof (induction qs rule: rev_induct)
  case Nil
  show ?case by simp
next
  case (snoc q qs)
  from snoc.prems have qs: "list_all quiet qs" and qq: "quiet q"
    by simp_all
  from qq have q: "\<And>bs. q \<noteq> SpiWrite bs"
    by (auto simp: quiet_def)
  have "wire dc l ((es @ qs) @ [q]) = wire dc l (es @ qs)"
    by (rule wire_snoc_quiet) (rule q)
  with snoc.IH [OF qs] show ?case by simp
qed

lemma quiet_polling: "list_all quiet (polling pin busy p k)"
  by (induction k) (simp_all add: polling_def quiet_def)

subsection \<open>The busy poll\<close>

lemma busy_count_Suc:
  "busy p \<Longrightarrow> busy_count busy p (Suc n) = Suc (busy_count busy (Suc p) n)"
  unfolding busy_count_def
  by (simp add: upt_conv_Cons map_Suc_upt [symmetric] takeWhile_map comp_def del: upt_Suc)

lemma busy_count_idle: "\<not> busy p \<Longrightarrow> busy_count busy p n = 0"
  unfolding busy_count_def by (cases n) (simp_all add: upt_conv_Cons del: upt_Suc)

lemma busy_count_le: "busy_count busy p n \<le> n"
  unfolding busy_count_def
  using length_takeWhile_le [of "\<lambda>i. busy (p + i)" "[0..<n]"] by simp

lemma busy_count_busy: "i < busy_count busy p n \<Longrightarrow> busy (p + i)"
proof -
  assume i: "i < busy_count busy p n"
  let ?xs = "takeWhile (\<lambda>i. busy (p + i)) [0..<n]"
  have len: "i < length ?xs" using i by (simp add: busy_count_def)
  then have "?xs ! i \<in> set ?xs" by (rule nth_mem)
  then have "busy (p + ?xs ! i)" by (rule set_takeWhileD [THEN conjunct2])
  moreover have "?xs ! i = [0..<n] ! i" using len by (rule takeWhile_nth)
  moreover have "i < n" using i busy_count_le [of busy p n] by simp
  ultimately show ?thesis by simp
qed

lemma busy_count_stop:
  "busy_count busy p n < n \<Longrightarrow> \<not> busy (p + busy_count busy p n)"
proof -
  assume lt: "busy_count busy p n < n"
  let ?P = "\<lambda>i. busy (p + i)"
  have "length (takeWhile ?P [0..<n]) < length [0..<n]"
    using lt by (simp add: busy_count_def)
  then have "\<not> ?P ([0..<n] ! length (takeWhile ?P [0..<n]))"
    by (rule nth_length_takeWhile)
  then show ?thesis using lt by (simp add: busy_count_def)
qed

lemma busy_loop_stop:
  "\<not> (busy (polls s) \<and> timeout < 100) \<Longrightarrow>
   busy_loop busy timeout s =
     (timeout, s\<lparr>polls := polls s + 1,
                 trace := trace s @ [Input (busy_pin s) (if busy (polls s) then HIGH else LOW)]\<rparr>)"
  by (subst busy_loop.simps) (auto simp add: gpio_input_def emit_def Let_def)

lemma busy_loop_step:
  "busy (polls s) \<Longrightarrow> timeout < 100 \<Longrightarrow>
   busy_loop busy timeout s =
     busy_loop busy (Suc timeout)
       (s\<lparr>polls := polls s + 1,
          trace := trace s @ [Input (busy_pin s) HIGH, Sleep 100]\<rparr>)"
  by (subst busy_loop.simps) (simp add: gpio_input_def emit_def time_sleep_def Let_def)

lemma busy_loop_eq:
  "timeout + n = 100 \<Longrightarrow>
   busy_loop busy timeout s =
     (timeout + busy_count busy (polls s) n,
      s\<lparr>polls := polls s + busy_count busy (polls s) n + 1,
        trace := trace s @ polling (busy_pin s) busy (polls s) (busy_count busy (polls s) n)\<rparr>)"
proof (induction n arbitrary: timeout s)
  case 0
  then have "\<not> (busy (polls s) \<and> timeout < 100)" by simp
  then show ?case
    by (simp add: busy_loop_stop busy_count_def polling_def)
next
  case (Suc n)
  show ?case
  proof (cases "busy (polls s)")
    case True
    from Suc.prems have lt: "timeout < 100" and eq: "Suc timeout + n = 100" by simp_all
    let ?s1 = "s\<lparr>polls := polls s + 1,
                 trace := trace s @ [Input (busy_pin s) HIGH, Sleep 100]\<rparr>"
    have "busy_loop busy timeout s = busy_loop busy (Suc timeout) ?s1"
      using True lt by (rule busy_loop_step)
    also have "\<dots> =
      (Suc timeout + busy_count busy (polls ?s1) n,
       ?s1\<lparr>polls := polls ?s1 + busy_count busy (polls ?s1) n + 1,
         trace := trace ?s1 @ polling (busy_pin ?s1) busy (polls ?s1) (busy_count busy (polls ?s1) n)\<rparr>)"
      by (rule Suc.IH [OF eq])
    finally show ?thesis
      using True by (simp add: busy_count_Suc polling_def)
  next
    case False
    then show ?thesis
      by (simp add: busy_loop_stop busy_count_idle polling_def)
  qed
qed

lemma wait_until_idle_eq:
  "wait_until_idle True busy s =
     (NoneV, s\<lparr>polls := polls s + busy_count busy (polls s) 100 + 1,
               trace := trace s @ waiting (busy_pin s) busy (polls s)\<rparr>)"
proof -
  have le: "busy_count busy (polls s) 100 \<le> 100" by (rule busy_count_le)
  have "busy_loop busy 0 s =
     (0 + busy_count busy (polls s) 100,
      s\<lparr>polls := polls s + busy_count busy (polls s) 100 + 1,
        trace := trace s @ polling (busy_pin s) busy (polls s) (busy_count busy (polls s) 100)\<rparr>)"
    by (rule busy_loop_eq) simp
  then show ?thesis
    using le
    by (simp add: wait_until_idle_def waiting_def time_sleep_def print_def emit_def)
qed

lemma quiet_waiting: "list_all quiet (waiting pin busy p)"
  by (simp add: waiting_def quiet_polling) (simp add: quiet_def)

lemma busy_count_stuck: "busy_count stuck_line p n = n"
  by (simp add: busy_count_def stuck_line_def takeWhile_eq_all_conv [THEN iffD2])

lemma busy_count_idle_line: "busy_count idle_line p n = 0"
  by (rule busy_count_idle) (simp add: idle_line_def)

section \<open>Facts about floats\<close>

lemma pow2_nonneg_exp: "0 \<le> e \<Longrightarrow> pow2 e = 2 ^ nat e"
  by (simp add: pow2_def)







section \<open>Facts about the packed buffer\<close>

lemma bit_drop_bit_0x80:
  "bit (drop_bit k (0x80 :: int)) n \<longleftrightarrow> n + k = 7"
proof -
  have a: "bit (drop_bit k ((2 :: int) ^ 7)) n \<longleftrightarrow> n + k = 7"
    unfolding bit_drop_bit_eq comp_def bit_exp_iff by auto
  have "(0x80 :: int) = 2 ^ 7" by simp
  then show ?thesis using a by (simp only:)
qed

lemma bit_bits_of:
  "bit (bits_of img x y ks b) n \<longleftrightarrow>
     bit b n \<or> (\<exists>k \<in> set ks. n + k = 7 \<and> x + k < fst (img_size img)
                              \<and> pixels img (x + k, y) = 255)"
  by (induction ks arbitrary: b) (auto simp add: bit_or_iff bit_drop_bit_0x80)

lemma bit_packed_byte:
  "bit (packed_byte img x y) n \<longleftrightarrow>
     n < 8 \<and> x + (7 - n) < fst (img_size img) \<and> pixels img (x + (7 - n), y) = 255"
proof -
  have "(\<exists>k \<in> set [0..<8]. n + k = 7 \<and> x + k < fst (img_size img)
                              \<and> pixels img (x + k, y) = 255)
        \<longleftrightarrow> n < 8 \<and> x + (7 - n) < fst (img_size img) \<and> pixels img (x + (7 - n), y) = 255"
  proof
    assume "\<exists>k \<in> set [0..<8]. n + k = 7 \<and> x + k < fst (img_size img)
                              \<and> pixels img (x + k, y) = 255"
    then obtain k where k: "n + k = 7" "x + k < fst (img_size img)" "pixels img (x + k, y) = 255"
      by blast
    from k(1) have "k = 7 - n" "n < 8" by simp_all
    with k show "n < 8 \<and> x + (7 - n) < fst (img_size img) \<and> pixels img (x + (7 - n), y) = 255"
      by simp
  next
    assume a: "n < 8 \<and> x + (7 - n) < fst (img_size img) \<and> pixels img (x + (7 - n), y) = 255"
    then have "7 - n \<in> set [0..<8]" "n + (7 - n) = 7" by simp_all
    with a show "\<exists>k \<in> set [0..<8]. n + k = 7 \<and> x + k < fst (img_size img)
                              \<and> pixels img (x + k, y) = 255"
      by blast
  qed
  then show ?thesis
    unfolding packed_byte_def bit_bits_of by simp
qed

lemma bits_of_range:
  "0 \<le> b \<Longrightarrow> b < 256 \<Longrightarrow> 0 \<le> bits_of img x y ks b \<and> bits_of img x y ks b < 256"
proof (induction ks arbitrary: b)
  case Nil
  then show ?case by simp
next
  case (Cons k ks)
  have d0: "0 \<le> drop_bit k (0x80 :: int)" by simp
  have "(0x80 :: int) div 2 ^ k \<le> 0x80 div 1"
    by (rule zdiv_mono2) simp_all
  then have "drop_bit k (0x80 :: int) \<le> 0x80"
    by (simp add: drop_bit_eq_div)
  then have d1: "drop_bit k (0x80 :: int) < 2 ^ 8" by simp
  from Cons.prems have b1: "b < 2 ^ 8" by simp
  from Cons.prems(1) b1 d1 have "b OR drop_bit k 0x80 < 2 ^ 8" by (rule OR_upper)
  then have "b OR drop_bit k 0x80 < 256" by simp
  moreover have "0 \<le> b OR drop_bit k 0x80" using Cons.prems(1) d0 by simp
  ultimately show ?case using Cons.IH Cons.prems by simp
qed

lemma packed_byte_range: "0 \<le> packed_byte img x y \<and> packed_byte img x y < 256"
  unfolding packed_byte_def by (rule bits_of_range) simp_all

lemma pack_bits_eq:
  "y < snd (img_size img) \<Longrightarrow> pack_bits img x y ks b = Inr (bits_of img x y ks b)"
  by (induction ks arbitrary: b) (simp_all add: getpixel_def)

lemma pack_row_eq:
  "y < snd (img_size img) \<Longrightarrow>
   pack_row img y xs buffer = Inr (buffer @ map (\<lambda>x. packed_byte img x y) xs)"
  by (induction xs arbitrary: buffer) (simp_all add: pack_bits_eq packed_byte_def)

lemma pack_rows_eq:
  "list_all (\<lambda>y. y < snd (img_size img)) ys \<Longrightarrow>
   pack_rows img ys buffer = Inr (buffer @ concat (map (packed_row img) ys))"
  by (induction ys arbitrary: buffer) (simp_all add: pack_row_eq packed_row_def)

lemma image_to_buffer_eq: "image_to_buffer self img = Inr (packed img)"
proof -
  have rows: "pack_rows img [0..<snd (img_size img)] [] = Inr (packed img)"
    unfolding packed_def
    using pack_rows_eq [of img "[0..<snd (img_size img)]" "[]"]
    by (simp add: list_all_iff)
  have "list_all (\<lambda>b. 0 \<le> b \<and> b < 256) (packed img)"
    by (simp add: list_all_iff packed_def packed_row_def) (use packed_byte_range in blast)
  then show ?thesis
    by (simp add: image_to_buffer_def rows bytes_def)
qed

lemma length_packed_row: "length (packed_row img y) = (fst (img_size img) + 7) div 8"
  by (simp add: packed_row_def range_step8_def)

lemma length_concat_rows:
  "length (concat (map (packed_row img) [0..<h])) = h * ((fst (img_size img) + 7) div 8)"
  by (induction h) (simp_all add: length_packed_row)

lemma length_packed:
  "length (packed img) = (fst (img_size img) + 7) div 8 * snd (img_size img)"
  by (simp add: packed_def length_concat_rows)

lemma nth_concat_rows:
  "y < h \<Longrightarrow> i < (fst (img_size img) + 7) div 8 \<Longrightarrow>
   concat (map (packed_row img) [0..<h]) ! (y * ((fst (img_size img) + 7) div 8) + i) =
     packed_byte img (8 * i) y"
proof (induction h)
  case 0
  then show ?case by simp
next
  case (Suc h)
  let ?nb = "(fst (img_size img) + 7) div 8"
  show ?case
  proof (cases "y < h")
    case True
    have "y * ?nb + i < h * ?nb"
    proof -
      from True have "Suc y \<le> h" by simp
      then have "Suc y * ?nb \<le> h * ?nb" by (rule mult_le_mono1)
      with Suc.prems(2) show ?thesis by simp
    qed
    then show ?thesis
      using Suc.IH [OF True Suc.prems(2)]
      by (simp add: nth_append length_concat_rows)
  next
    case False
    with Suc.prems have yh: "y = h" by simp
    have "concat (map (packed_row img) [0..<Suc h]) ! (h * ?nb + i) = packed_row img h ! i"
      by (simp add: nth_append length_concat_rows)
    also have "\<dots> = packed_byte img (8 * i) h"
      using Suc.prems(2) by (simp add: packed_row_def range_step8_def)
    finally show ?thesis using yh by simp
  qed
qed

lemma nth_packed:
  "y < snd (img_size img) \<Longrightarrow> i < (fst (img_size img) + 7) div 8 \<Longrightarrow>
   packed img ! (y * ((fst (img_size img) + 7) div 8) + i) = packed_byte img (8 * i) y"
  unfolding packed_def by (rule nth_concat_rows)

lemma ceil_div8: "nat \<lceil>real w / 8\<rceil> = (w + 7) div 8"
proof -
  have "\<lceil>real w / 8\<rceil> = \<lceil>real_of_int (int w) / real_of_int 8\<rceil>" by simp
  also have "\<dots> = - (- int w div 8)" by (rule ceiling_divide_eq_div)
  finally have "\<lceil>real w / 8\<rceil> = - (- int w div 8)" .
  moreover have "- (- int w div 8) = (int w + 7) div 8" by presburger
  ultimately have "nat \<lceil>real w / 8\<rceil> = nat ((int w + 7) div 8)" by simp
  also have "\<dots> = (w + 7) div 8" by (simp add: nat_div_distrib nat_add_distrib)
  finally show ?thesis .
qed

lemma bit_packed_pixel:
  assumes "x < fst (img_size img)" "y < snd (img_size img)"
  shows "bit (packed img ! (y * ((fst (img_size img) + 7) div 8) + x div 8)) (7 - x mod 8)
           \<longleftrightarrow> pixels img (x, y) = 255"
proof -
  from assms(1) have i: "x div 8 < (fst (img_size img) + 7) div 8" by simp
  have x: "8 * (x div 8) + (7 - (7 - x mod 8)) = x" by simp
  have n: "7 - x mod 8 < 8" by simp
  show ?thesis
    unfolding nth_packed [OF assms(2) i] bit_packed_byte x
    using assms(1) n by simp
qed

lemma packed_byte_black: "(\<And>p. pixels img p \<noteq> 255) \<Longrightarrow> packed_byte img x y = 0"
  by (rule bit_eqI) (simp add: bit_packed_byte)

lemma concat_replicate_rows:
  "concat (map (\<lambda>y. replicate n (0 :: int)) [0..<h]) = replicate (h * n) 0"
proof (induction h)
  case 0
  show ?case by simp
next
  case (Suc h)
  have "replicate (h * n) (0 :: int) @ replicate n 0 = replicate (h * n + n) 0"
    by (simp add: replicate_add)
  with Suc show ?case by (simp add: add.commute)
qed

lemma packed_black: "packed (image_new (w, h) 0) = replicate ((w + 7) div 8 * h) 0"
proof -
  let ?img = "image_new (w, h) 0"
  have sz: "img_size ?img = (w, h)" by (simp add: image_new_def)
  have px: "\<And>p. pixels ?img p \<noteq> 255" by (simp add: image_new_def)
  have row: "packed_row ?img y = replicate ((w + 7) div 8) 0" for y
    unfolding packed_row_def range_step8_def sz
    by (simp add: packed_byte_black [OF px] map_replicate_const)
  have "map (packed_row ?img) [0..<h] = map (\<lambda>y. replicate ((w + 7) div 8) 0) [0..<h]"
    by (simp add: row)
  then have "packed ?img = replicate (h * ((w + 7) div 8)) 0"
    unfolding packed_def sz by (simp only: snd_conv concat_replicate_rows)
  then show ?thesis by (simp add: mult.commute)
qed

lemma packed_white_8x1: "packed white_8x1 = [0xFF]"
  by code_simp

lemma packed_black_dot_8x1: "packed black_dot_8x1 = [0x7F]"
  by code_simp

lemma packed_bits:
  assumes "y < snd (img_size img)" "i < (fst (img_size img) + 7) div 8"
  shows "(\<forall>c < 8. bit (packed img ! (y * ((fst (img_size img) + 7) div 8) + i)) (7 - c) \<longleftrightarrow>
                     8 * i + c < fst (img_size img) \<and> pixels img (8 * i + c, y) = 255)
          \<and> (\<forall>n \<ge> 8. \<not> bit (packed img ! (y * ((fst (img_size img) + 7) div 8) + i)) n)"
proof (intro conjI allI impI)
  fix c :: nat
  assume "c < 8"
  then have "7 - (7 - c) = c" "7 - c < 8" by simp_all
  then show "bit (packed img ! (y * ((fst (img_size img) + 7) div 8) + i)) (7 - c) \<longleftrightarrow>
      8 * i + c < fst (img_size img) \<and> pixels img (8 * i + c, y) = 255"
    unfolding nth_packed [OF assms] bit_packed_byte by simp
next
  fix n :: nat
  assume "8 \<le> n"
  then show "\<not> bit (packed img ! (y * ((fst (img_size img) + 7) div 8) + i)) n"
    unfolding nth_packed [OF assms] bit_packed_byte by simp
qed

section \<open>The busy poll never raises and returns nothing\<close>

text \<open>
  Claim C9, as amended. With hardware present, \<^verbatim>\<open>wait_until_idle\<close> reads the busy pin,
  sleeps 100 ms after every busy reading and reads again, until a reading is idle or
  100 readings in a row were busy (\<open>busy_count\<close> is that number of busy readings); it
  prints the warning exactly when the counter reached 100, sleeps 200 ms and returns.
  It is a total function of the readings: no reading makes it raise. What it returns
  is \<^verbatim>\<open>None\<close> in every case, also without hardware, where it does nothing: the
  caller is not told whether the panel became idle.
\<close>

theorem wait_until_idle_polls:
  "wait_until_idle True busy s =
     (NoneV, s\<lparr>polls := polls s + busy_count busy (polls s) 100 + 1,
               trace := trace s @ waiting (busy_pin s) busy (polls s)\<rparr>)
   \<and> busy_count busy (polls s) 100 \<le> 100
   \<and> (\<forall>i < busy_count busy (polls s) 100. busy (polls s + i))
   \<and> (busy_count busy (polls s) 100 < 100
        \<longrightarrow> \<not> busy (polls s + busy_count busy (polls s) 100))
   \<and> wait_until_idle False busy s = (NoneV, s)"
proof -
  have "wait_until_idle False busy s = (NoneV, s)"
    by (simp add: wait_until_idle_def)
  then show ?thesis
    using wait_until_idle_eq [of busy s] busy_count_le [of busy "polls s" 100]
      busy_count_busy [of _ busy "polls s" 100] busy_count_stop [of busy "polls s" 100]
    by blast
qed

text \<open>
  A busy line that never goes idle: 101 readings, the warning, and a normal return.
\<close>

theorem wait_until_idle_polls_witness:
  "wait_until_idle True stuck_line (EPD2in7 True 25 17 24 8) =
     (NoneV, (EPD2in7 True 25 17 24 8)\<lparr>polls := 101, trace := waiting 24 stuck_line 0\<rparr>)
   \<and> busy_count stuck_line 0 100 = 100
   \<and> stuck_line 99
   \<and> waiting 24 stuck_line 0 =
       polling 24 stuck_line 0 100 @ [Print ''WARNING: Display BUSY timeout'', Sleep 200]"
  using wait_until_idle_polls [of stuck_line "EPD2in7 True 25 17 24 8"]
  by (simp add: busy_count_stuck EPD2in7_def waiting_def stuck_line_def)

text \<open>
  Claim C9 as stated fails: on a line that is idle at the first reading the panel
  "became idle", yet the call does not return the boolean \<open>True\<close>; it returns \<^verbatim>\<open>None\<close>.
\<close>

theorem wait_until_idle_returns_None:
  "fst (wait_until_idle True idle_line (EPD2in7 True 25 17 24 8)) \<noteq> BoolV True
   \<and> fst (wait_until_idle True idle_line (EPD2in7 True 25 17 24 8)) = NoneV
   \<and> busy_count idle_line 0 100 = 0"
  by (simp add: wait_until_idle_eq busy_count_idle_line)

section \<open>The refresh decision\<close>




section \<open>The packed buffer\<close>

subsection \<open>Polarity\<close>

text \<open>
  Claim C3. For every frame, \<^verbatim>\<open>_image_to_buffer\<close> returns a buffer of \<open>(w + 7) div 8\<close>
  bytes for each of the \<open>h\<close> rows. In byte \<open>i\<close> of row \<open>y\<close>, bit \<open>7 - c\<close> (for a column
  offset \<open>c\<close> below 8) is set exactly when column \<open>8 * i + c\<close> lies inside the frame and
  the pixel there is white (255): it is clear for a black pixel, and clear in the
  unused trailing bits of the last byte of a row; no bit above bit 7 is set. The 8 by 1
  white frame with a black pixel at (0, 0) packs to the byte 0x7F, the 8 by 1 white
  frame to 0xFF, and an all-black frame of any size to bytes 0x00 only.
\<close>

theorem image_to_buffer_polarity:
  "\<exists>buf. image_to_buffer self img = Inr buf
     \<and> length buf = (fst (img_size img) + 7) div 8 * snd (img_size img)
     \<and> (\<forall>y < snd (img_size img). \<forall>i < (fst (img_size img) + 7) div 8.
          (\<forall>c < 8. bit (buf ! (y * ((fst (img_size img) + 7) div 8) + i)) (7 - c) \<longleftrightarrow>
                     8 * i + c < fst (img_size img) \<and> pixels img (8 * i + c, y) = 255)
          \<and> (\<forall>n \<ge> 8. \<not> bit (buf ! (y * ((fst (img_size img) + 7) div 8) + i)) n))
     \<and> image_to_buffer self black_dot_8x1 = Inr [0x7F]
     \<and> image_to_buffer self white_8x1 = Inr [0xFF]
     \<and> (\<forall>w h. image_to_buffer self (image_new (w, h) 0) = Inr (replicate ((w + 7) div 8 * h) 0))"
proof (intro exI [of _ "packed img"] conjI allI impI)
  show "image_to_buffer self img = Inr (packed img)"
    by (rule image_to_buffer_eq)
  show "length (packed img) = (fst (img_size img) + 7) div 8 * snd (img_size img)"
    by (rule length_packed)
  show "image_to_buffer self black_dot_8x1 = Inr [0x7F]"
    by (simp only: image_to_buffer_eq packed_black_dot_8x1)
  show "image_to_buffer self white_8x1 = Inr [0xFF]"
    by (simp only: image_to_buffer_eq packed_white_8x1)
  show "image_to_buffer self (image_new (w, h) 0) = Inr (replicate ((w + 7) div 8 * h) 0)" for w h
    by (simp only: image_to_buffer_eq packed_black)
next
  fix y i c :: nat
  assume "y < snd (img_size img)" "i < (fst (img_size img) + 7) div 8" "c < 8"
  with packed_bits [of y img i]
  show "bit (packed img ! (y * ((fst (img_size img) + 7) div 8) + i)) (7 - c) \<longleftrightarrow>
      8 * i + c < fst (img_size img) \<and> pixels img (8 * i + c, y) = 255"
    by blast
next
  fix y i n :: nat
  assume "y < snd (img_size img)" "i < (fst (img_size img) + 7) div 8" "8 \<le> n"
  with packed_bits [of y img i]
  show "\<not> bit (packed img ! (y * ((fst (img_size img) + 7) div 8) + i)) n"
    by blast
qed

text \<open>
  On the frame with the black pixel at (0, 0): one byte, bit 7 clear, bits 6 and 0 set.
\<close>

theorem image_to_buffer_polarity_witness:
  "\<exists>buf. image_to_buffer one_minute_renderer black_dot_8x1 = Inr buf
     \<and> length buf = 1 \<and> \<not> bit (buf ! 0) 7 \<and> bit (buf ! 0) 6 \<and> bit (buf ! 0) 0
     \<and> \<not> bit (buf ! 0) 8 \<and> buf = [0x7F]"
proof -
  have sz: "img_size black_dot_8x1 = (8, 1)"
    by (simp add: black_dot_8x1_def white_8x1_def image_new_def)
  have px: "pixels black_dot_8x1 = (\<lambda>p. if p = (0, 0) then 0 else 255)"
    by (simp add: black_dot_8x1_def)
  from image_to_buffer_polarity [of one_minute_renderer black_dot_8x1]
  obtain buf where
    all: "image_to_buffer one_minute_renderer black_dot_8x1 = Inr buf
     \<and> length buf = (fst (img_size black_dot_8x1) + 7) div 8 * snd (img_size black_dot_8x1)
     \<and> (\<forall>y < snd (img_size black_dot_8x1). \<forall>i < (fst (img_size black_dot_8x1) + 7) div 8.
          (\<forall>c < 8. bit (buf ! (y * ((fst (img_size black_dot_8x1) + 7) div 8) + i)) (7 - c) \<longleftrightarrow>
                     8 * i + c < fst (img_size black_dot_8x1)
                     \<and> pixels black_dot_8x1 (8 * i + c, y) = 255)
          \<and> (\<forall>n \<ge> 8. \<not> bit (buf ! (y * ((fst (img_size black_dot_8x1) + 7) div 8) + i)) n))
     \<and> image_to_buffer one_minute_renderer black_dot_8x1 = Inr [0x7F]
     \<and> image_to_buffer one_minute_renderer white_8x1 = Inr [0xFF]
     \<and> (\<forall>w h. image_to_buffer one_minute_renderer (image_new (w, h) 0) =
            Inr (replicate ((w + 7) div 8 * h) 0))" ..
  note b = all [THEN conjunct1]
  note l = all [THEN conjunct2, THEN conjunct1]
  note bits = all [THEN conjunct2, THEN conjunct2, THEN conjunct1, rule_format, of 0 0]
  note e = all [THEN conjunct2, THEN conjunct2, THEN conjunct2, THEN conjunct1]
  have row: "(\<forall>c < 8. bit (buf ! (0 * ((fst (img_size black_dot_8x1) + 7) div 8) + 0)) (7 - c) \<longleftrightarrow>
                     8 * 0 + c < fst (img_size black_dot_8x1)
                     \<and> pixels black_dot_8x1 (8 * 0 + c, 0) = 255)
          \<and> (\<forall>n \<ge> 8. \<not> bit (buf ! (0 * ((fst (img_size black_dot_8x1) + 7) div 8) + 0)) n)"
    by (rule bits) (simp_all add: sz)
  from row [THEN conjunct1, rule_format, of 0] have b7: "\<not> bit (buf ! 0) 7"
    by (simp add: sz px)
  from row [THEN conjunct1, rule_format, of 1] have b6: "bit (buf ! 0) 6"
    by (simp add: sz px)
  from row [THEN conjunct1, rule_format, of 7] have b0: "bit (buf ! 0) 0"
    by (simp add: sz px)
  from row [THEN conjunct2, rule_format, of 8] have b8: "\<not> bit (buf ! 0) 8"
    by simp
  from b e have v: "buf = [0x7F]" by simp
  from l have len: "length buf = 1" by (simp add: sz)
  from b len b7 b6 b0 b8 v show ?thesis by blast
qed

subsection \<open>Length\<close>

text \<open>
  Claim C5. For every frame of \<open>w\<close> by \<open>h\<close> pixels the buffer \<^verbatim>\<open>_image_to_buffer\<close> returns
  has exactly \<open>ceil(w / 8) * h\<close> bytes.
\<close>

theorem image_to_buffer_length:
  "\<exists>buf. image_to_buffer self img = Inr buf
     \<and> length buf = nat \<lceil>real (fst (img_size img)) / 8\<rceil> * snd (img_size img)"
  by (simp add: image_to_buffer_eq length_packed ceil_div8)

text \<open>The panel's 176 by 264 frame packs to 5808 bytes, a 10 by 3 frame to 6.\<close>

theorem image_to_buffer_length_witness:
  "\<exists>buf. image_to_buffer one_minute_renderer (image_new (176, 264) 255) = Inr buf
     \<and> length buf = 5808
     \<and> (\<exists>buf. image_to_buffer one_minute_renderer (image_new (10, 3) 0) = Inr buf \<and> length buf = 6)"
  using image_to_buffer_length [of one_minute_renderer "image_new (176, 264) 255"]
    image_to_buffer_length [of one_minute_renderer "image_new (10, 3) 0"]
  by (simp add: image_new_def ceil_div8)

subsection \<open>Frames of another size\<close>

text \<open>
  Claim C8, as amended. \<^verbatim>\<open>_image_to_buffer\<close> does not compare the frame with the
  configured width and height: for every frame, of whatever dimensions, it returns a
  buffer, of \<open>ceil(w / 8) * h\<close> bytes for the frame's own width \<open>w\<close> and height \<open>h\<close>; it
  raises no error, and what it returns is the same under any configured width and
  height.
\<close>

theorem image_to_buffer_any_size:
  "\<exists>buf. image_to_buffer self img = Inr buf
     \<and> length buf = (fst (img_size img) + 7) div 8 * snd (img_size img)
     \<and> image_to_buffer self img = image_to_buffer (self\<lparr>width := w, height := h\<rparr>) img"
  by (simp add: image_to_buffer_eq length_packed)

text \<open>The 8 by 1 frame on a renderer configured for 264 by 176, and for 8 by 1.\<close>

theorem image_to_buffer_any_size_witness:
  "\<exists>buf. image_to_buffer one_minute_renderer white_8x1 = Inr buf \<and> length buf = 1
     \<and> image_to_buffer one_minute_renderer white_8x1 =
         image_to_buffer (one_minute_renderer\<lparr>width := 8, height := 1\<rparr>) white_8x1"
  using image_to_buffer_any_size [where self = one_minute_renderer and img = white_8x1
      and w = 8 and h = 1]
  by (simp add: white_8x1_def image_new_def)

text \<open>
  Claim C8 as stated fails: a renderer configured for 264 by 176 pixels is given a frame
  of 8 by 1 pixels, and \<^verbatim>\<open>_image_to_buffer\<close> returns the one-byte buffer 0xFF instead of
  rejecting the frame.
\<close>

theorem image_to_buffer_accepts_mismatch:
  "img_size white_8x1 \<noteq> (width one_minute_renderer, height one_minute_renderer)
   \<and> image_to_buffer one_minute_renderer white_8x1 = Inr [0xFF]"
  by (simp add: image_to_buffer_eq packed_white_8x1)
     (simp add: white_8x1_def image_new_def one_minute_renderer_def DisplayRenderer_def)

subsection \<open>Round trip\<close>

text \<open>
  Claim C4. For every frame of the configured dimensions whose pixels are black (0) or
  white (255), unpacking what \<^verbatim>\<open>_image_to_buffer\<close> returns gives the frame back: the
  same size, and \<^verbatim>\<open>getpixel\<close> answers the same at every coordinate. \<open>unpack\<close> is
  modelled from the specification.
\<close>

theorem unpack_image_to_buffer:
  assumes "img_size F = (width self, height self)"
    and "\<forall>x y. x < width self \<and> y < height self \<longrightarrow> pixels F (x, y) = 0 \<or> pixels F (x, y) = 255"
  shows "\<exists>buf. image_to_buffer self F = Inr buf
      \<and> img_size (unpack (width self) (height self) buf) = img_size F
      \<and> (\<forall>p. getpixel (unpack (width self) (height self) buf) p = getpixel F p)"
proof -
  have "getpixel (unpack (width self) (height self) (packed F)) p = getpixel F p" for p
  proof (cases "fst p < width self \<and> snd p < height self")
    case True
    then have x: "fst p < fst (img_size F)" and y: "snd p < snd (img_size F)"
      using assms(1) by simp_all
    from bit_packed_pixel [OF x y]
    have "bit (packed F ! (snd p * ((width self + 7) div 8) + fst p div 8)) (7 - fst p mod 8)
            \<longleftrightarrow> pixels F p = 255"
      using assms(1) by simp
    moreover from assms(2) True have "pixels F p = 0 \<or> pixels F p = 255"
      by (cases p) simp
    ultimately show ?thesis
      using True assms(1) by (auto simp add: getpixel_def unpack_def)
  next
    case False
    then show ?thesis
      using assms(1) by (auto simp add: getpixel_def unpack_def)
  qed
  then show ?thesis
    using assms(1) by (simp add: image_to_buffer_eq unpack_def)
qed

text \<open>
  The 8 by 1 frame with a black pixel at (0, 0), on a renderer configured for 8 by 1:
  the black pixel and a white pixel come back, and outside the frame there is no pixel.
\<close>

theorem unpack_image_to_buffer_witness:
  "\<exists>buf. image_to_buffer (one_minute_renderer\<lparr>width := 8, height := 1\<rparr>) black_dot_8x1 = Inr buf
     \<and> img_size (unpack 8 1 buf) = (8, 1)
     \<and> getpixel (unpack 8 1 buf) (0, 0) = Inr 0
     \<and> getpixel (unpack 8 1 buf) (3, 0) = Inr 255
     \<and> getpixel (unpack 8 1 buf) (8, 0) = Inl IndexError"
proof -
  let ?r = "one_minute_renderer\<lparr>width := 8, height := 1\<rparr>"
  have sz: "img_size black_dot_8x1 = (8, 1)"
    by (simp add: black_dot_8x1_def white_8x1_def image_new_def)
  have px: "pixels black_dot_8x1 = (\<lambda>p. if p = (0, 0) then 0 else 255)"
    by (simp add: black_dot_8x1_def)
  have h1: "img_size black_dot_8x1 = (width ?r, height ?r)"
    by (simp add: sz)
  have h2: "\<forall>x y. x < width ?r \<and> y < height ?r \<longrightarrow>
      pixels black_dot_8x1 (x, y) = 0 \<or> pixels black_dot_8x1 (x, y) = 255"
    by (simp add: px)
  from unpack_image_to_buffer [OF h1 h2]
  obtain buf where all: "image_to_buffer ?r black_dot_8x1 = Inr buf
      \<and> img_size (unpack (width ?r) (height ?r) buf) = img_size black_dot_8x1
      \<and> (\<forall>p. getpixel (unpack (width ?r) (height ?r) buf) p = getpixel black_dot_8x1 p)" ..
  note b = all [THEN conjunct1]
  from all [THEN conjunct2, THEN conjunct1] have s: "img_size (unpack 8 1 buf) = (8, 1)"
    by (simp add: sz)
  from all [THEN conjunct2, THEN conjunct2, rule_format, of "(0, 0)"]
  have p0: "getpixel (unpack 8 1 buf) (0, 0) = Inr 0"
    by (simp add: getpixel_def sz px)
  from all [THEN conjunct2, THEN conjunct2, rule_format, of "(3, 0)"]
  have p3: "getpixel (unpack 8 1 buf) (3, 0) = Inr 255"
    by (simp add: getpixel_def sz px)
  from all [THEN conjunct2, THEN conjunct2, rule_format, of "(8, 0)"]
  have p8: "getpixel (unpack 8 1 buf) (8, 0) = Inl IndexError"
    by (simp add: getpixel_def sz px)
  from b s p0 p3 p8 show ?thesis by blast
qed

end
